theory Spec2Isabelle
  imports Complex_Main "HOL-Library.AList" "HOL-Library.Multiset" "HOL-Library.Product_Lexorder"
begin

section \<open>Conventions of the embedding\<close>

text \<open>
  The repository is a batch pipeline over pandas tables.  A table is modelled as the list
  of its rows in row order, a row as a record with one field per column.  Identifiers
  (question ids, bucket ordinals) are integers, forecaster guids are strings and calendar
  days are day numbers (\<open>int\<close>): the \<open>day\<close> column holds timestamps floored to whole days,
  so the difference of two days is a whole number of days.

  Floating-point numbers are modelled by the real numbers they denote.  Rounding is not
  modelled: arithmetic is exact, and a change of storage width (\<open>astype("float32")\<close>,
  modelled by \<open>astype_float32\<close>) leaves the number it stores as it is.  The one
  non-number the sources produce on purpose, \<open>np.nan\<close>, is a value of its own (\<open>NaN\<close>)
  wherever a function can return it.

  An exception is a value: functions that can raise return \<open>error + 'a\<close>.
\<close>

datatype error = ValueError string | IndexError

datatype pyfloat = Num real | NaN

definition astype_float32 :: "real \<Rightarrow> real" where
  "astype_float32 x = x"

fun pyfloat_astype_float32 :: "pyfloat \<Rightarrow> pyfloat" where
  "pyfloat_astype_float32 (Num x) = Num (astype_float32 x)"
| "pyfloat_astype_float32 NaN = NaN"

definition mean :: "real list \<Rightarrow> real" where
  "mean xs = sum_list xs / real (length xs)"

section \<open>Ordered scoring rule (ordered\_brier\_eval.py)\<close>

text \<open>
  The result of \<open>np.asarray(_, dtype=float)\<close>: the shape, and the elements in row-major
  order.  \<open>ndim\<close> is the length of the shape; a 1-D array of \<open>n\<close> elements has shape \<open>[n]\<close>.
\<close>

datatype ndarray = NDArray (shape: "nat list") (elems: "real list")

definition ndim :: "ndarray \<Rightarrow> nat" where
  "ndim a = length (shape a)"

definition wf_ndarray :: "ndarray \<Rightarrow> bool" where
  "wf_ndarray a \<longleftrightarrow> length (elems a) = prod_list (shape a)"

definition array1 :: "real list \<Rightarrow> ndarray" where
  "array1 xs = NDArray [length xs] xs"

text \<open>\<open>np.unique\<close>: the distinct values, sorted.\<close>

definition np_unique :: "real list \<Rightarrow> real list" where
  "np_unique xs = sort (remdups xs)"

text \<open>\<open>np.cumsum\<close>: running sums, one per element.\<close>

fun cumsum_from :: "real \<Rightarrow> real list \<Rightarrow> real list" where
  "cumsum_from acc [] = []"
| "cumsum_from acc (x # xs) = (acc + x) # cumsum_from (acc + x) xs"

definition cumsum :: "real list \<Rightarrow> real list" where
  "cumsum xs = cumsum_from 0 xs"

text \<open>
  The part of \<open>ordered_brier_from_distribution\<close> after the shape checks and the K=1
  expansion: the one-hot check of \<open>outcome\<close>, the rescaling of \<open>probs\<close>, the cumulative
  sums, and the mean over the splits (\<open>[:-1]\<close> is \<open>butlast\<close>).
\<close>

definition score_vectors :: "real list \<Rightarrow> real list \<Rightarrow> error + real" where
  "score_vectors probs outcome =
     (let unique_vals = np_unique outcome in
      if \<not> list_all (\<lambda>v. v \<in> set [0, 1]) unique_vals then
        Inl (ValueError ''Outcome must be one-hot: entries must be 0 or 1 only.'')
      else if length (filter (\<lambda>v. v = 1) outcome) \<noteq> 1 then
        Inl (ValueError ''Outcome must be one-hot: exactly one category must be 1.'')
      else
        let psum = sum_list probs;
            probs' = (if psum > 0 then map (\<lambda>p. p / psum) probs else probs);
            cum_forecast = cumsum probs';
            cum_truth = cumsum outcome;
            diffsq = map (\<lambda>(f, t). (f - t)\<^sup>2) (zip (butlast cum_forecast) (butlast cum_truth));
            brier_per_split = map (\<lambda>d. 2 * d) diffsq
        in Inr (mean brier_per_split))"

definition ordered_brier_from_distribution :: "ndarray \<Rightarrow> ndarray \<Rightarrow> error + real" where
  "ordered_brier_from_distribution probs outcome =
     (if ndim probs \<noteq> 1 \<or> ndim outcome \<noteq> 1 then
        Inl (ValueError ''probs and outcome must be 1-D arrays.'')
      else if shape probs ! 0 \<noteq> shape outcome ! 0 then
        Inl (ValueError ''probs and outcome must have same length.'')
      else if shape probs ! 0 = 1 then
        (let p = elems probs ! 0; y = elems outcome ! 0
         in score_vectors [p, 1 - p] [y, 1 - y])
      else score_vectors (elems probs) (elems outcome))"

text \<open>The call on two plain Python lists, as in \<open>ordered_brier_from_distribution([0.6], [1])\<close>.\<close>

definition ordered_brier :: "real list \<Rightarrow> real list \<Rightarrow> error + real" where
  "ordered_brier probs outcome = ordered_brier_from_distribution (array1 probs) (array1 outcome)"

text \<open>
  The score as the specification words it: the arithmetic mean over the split points
  \<open>j = 0..K-2\<close> of \<open>2 * (P j - Y j)^2\<close>, with \<open>P j\<close> the cumulative forecast up to \<open>j\<close>
  (of the forecast rescaled to sum 1 when its sum is positive) and \<open>Y j\<close> the cumulative
  truth up to \<open>j\<close>.
\<close>

definition spec_rescaled :: "real list \<Rightarrow> nat \<Rightarrow> real" where
  "spec_rescaled probs i = (if sum_list probs > 0 then probs ! i / sum_list probs else probs ! i)"

definition spec_ordered_brier :: "real list \<Rightarrow> real list \<Rightarrow> real" where
  "spec_ordered_brier probs outcome =
     (\<Sum>j < length probs - 1.
         2 * ((\<Sum>i \<le> j. spec_rescaled probs i) - (\<Sum>i \<le> j. outcome ! i))\<^sup>2)
     / real (length probs - 1)"

definition one_hot :: "real list \<Rightarrow> bool" where
  "one_hot outcome \<longleftrightarrow>
     (\<forall>v \<in> set outcome. v = 0 \<or> v = 1) \<and> length (filter (\<lambda>v. v = 1) outcome) = 1"

definition complement_expansion :: "real list \<Rightarrow> real list" where
  "complement_expansion xs = (if length xs = 1 then [xs ! 0, 1 - xs ! 0] else xs)"

definition spec_invalid_input :: "ndarray \<Rightarrow> ndarray \<Rightarrow> bool" where
  "spec_invalid_input probs outcome \<longleftrightarrow>
     ndim probs \<noteq> 1 \<or> ndim outcome \<noteq> 1 \<or>
     length (elems probs) \<noteq> length (elems outcome) \<or>
     (\<exists>v \<in> set (complement_expansion (elems outcome)). v \<noteq> 0 \<and> v \<noteq> 1) \<or>
     length (filter (\<lambda>v. v = 1) (complement_expansion (elems outcome))) \<noteq> 1"

section \<open>Central tendency estimators (means.py)\<close>

text \<open>The constant \<open>EPS = 1e-5\<close>.\<close>

definition EPS :: real where
  "EPS = 1 / 100000"

text \<open>\<open>np.clip(a, lo, hi)\<close> is \<open>minimum(maximum(a, lo), hi)\<close>, element by element.\<close>

definition clip :: "real \<Rightarrow> real \<Rightarrow> real \<Rightarrow> real" where
  "clip lo hi x = min (max x lo) hi"

text \<open>
  \<open>geometric_mean_prob\<close>: NaN on an empty input and on an input with a negative value;
  otherwise the inputs are clipped to \<open>[EPS, 1 - EPS]\<close> and the result is
  \<open>exp(mean(log(arr)))\<close>.
\<close>

definition geometric_mean_prob :: "real list \<Rightarrow> pyfloat" where
  "geometric_mean_prob probs =
     (if length probs = 0 then NaN
      else if \<exists>p \<in> set probs. p < 0 then NaN
      else let arr = map (clip EPS (1 - EPS)) probs
           in Num (exp (mean (map ln arr))))"

text \<open>
  A Python slice \<open>xs[i:j]\<close> of a list of length \<open>n\<close>: a negative bound counts from the
  end, and both bounds are clamped to \<open>[0, n]\<close>.
\<close>

definition slice_bound :: "nat \<Rightarrow> int \<Rightarrow> nat" where
  "slice_bound n i = (if i < 0 then nat (max 0 (int n + i)) else min (nat i) n)"

definition py_slice :: "'a list \<Rightarrow> int \<Rightarrow> int \<Rightarrow> 'a list" where
  "py_slice xs i j =
     (let lo = slice_bound (length xs) i; hi = slice_bound (length xs) j
      in take (hi - lo) (drop lo xs))"

text \<open>
  \<open>trimmed_mean_prob\<close>: sort, cut \<open>k = floor(size * trim_frac)\<close> values from each tail
  unless that would leave nothing, and average the rest.
\<close>

definition trimmed_mean_prob :: "real list \<Rightarrow> real \<Rightarrow> pyfloat" where
  "trimmed_mean_prob probs trim_frac =
     (if length probs = 0 then NaN
      else let arr = sort probs;
               k = \<lfloor>real (length arr) * trim_frac\<rfloor>;
               trimmed = (if k * 2 \<ge> int (length arr) then arr
                          else py_slice arr k (int (length arr) - k))
           in Num (mean trimmed))"

text \<open>
  \<open>geometric_mean_odds\<close>: NaN on an empty input and on an input with a value outside
  \<open>[0, 1]\<close>; otherwise the clipped inputs are turned into odds, the geometric mean of the
  odds is taken in log space and converted back to a probability.
\<close>

definition geometric_mean_odds :: "real list \<Rightarrow> pyfloat" where
  "geometric_mean_odds probs =
     (if length probs = 0 then NaN
      else if (\<exists>p \<in> set probs. p < 0) \<or> (\<exists>p \<in> set probs. p > 1) then NaN
      else let arr = map (clip EPS (1 - EPS)) probs;
               odds = map (\<lambda>a. a / (1 - a)) arr;
               o_geo = exp (mean (map ln odds));
               p_geo = o_geo / (1 + o_geo)
           in Num p_geo)"

section \<open>Carry-forward engine (carry\_forward.py)\<close>

text \<open>
  A row of the \<open>forecaster_day\<close> table that main.py builds, and a row of the snapshot table
  the engine emits.  The field names are the column names, shortened: \<open>qid\<close> is
  "discover question id", \<open>guid\<close> is "membership guid", \<open>aso\<close> is "answer sort order".
  \<open>correctness_known_day\<close> is \<open>None\<close> where the column holds NaT.
\<close>

record forecaster_day_row =
  qid :: nat
  guid :: string
  day :: int
  aso :: int
  prob :: real
  resolved_probability :: real
  correctness_known_day :: "int option"

record snapshot =
  s_qid :: nat
  s_guid :: string
  s_day :: int
  s_aso :: int
  s_prob :: real
  s_resolved_probability :: "real option"

text \<open>\<open>pd.unique\<close> and \<open>drop_duplicates\<close>: the distinct values in order of first appearance.\<close>

definition pd_unique :: "'a list \<Rightarrow> 'a list" where
  "pd_unique xs = rev (remdups (rev xs))"






















section \<open>Cross-forecaster aggregator (aggregation.py)\<close>

text \<open>
  The five columns of \<open>_PROB_COLS\<close>, and a row of the aggregate table: \<open>col r c\<close> is the
  value of column \<open>c\<close> in row \<open>r\<close>.
\<close>

datatype prob_col =
  Mean_probability | Median_probability | Trimmed_mean_probability
  | Geometric_mean_probability | Geometric_mean_odds

definition PROB_COLS :: "prob_col list" where
  "PROB_COLS = [Mean_probability, Median_probability, Trimmed_mean_probability,
                Geometric_mean_probability, Geometric_mean_odds]"

record agg_row =
  a_qid :: nat
  a_day :: int
  answer_sort_order :: int
  col :: "prob_col \<Rightarrow> pyfloat"
  n_forecasters :: nat
  a_resolved_probability :: "real option"

text \<open>pandas' \<open>median\<close> of a non-empty group, and \<open>first\<close> (the first value that is not null).\<close>

definition median :: "real list \<Rightarrow> real" where
  "median xs =
     (let s = sort xs; n = length s
      in if even n then (s ! (n div 2 - 1) + s ! (n div 2)) / 2 else s ! (n div 2))"

definition first_valid :: "'a option list \<Rightarrow> 'a option" where
  "first_valid xs = (case filter (\<lambda>x. x \<noteq> None) xs of [] \<Rightarrow> None | x # _ \<Rightarrow> x)"

definition snapshot_key :: "snapshot \<Rightarrow> nat \<times> int \<times> int" where
  "snapshot_key s = (s_qid s, s_day s, s_aso s)"

definition pool_group :: "nat \<times> int \<times> int \<Rightarrow> snapshot list \<Rightarrow> agg_row" where
  "pool_group k grp =
     (let probs = map s_prob grp
      in \<lparr>a_qid = fst k, a_day = fst (snd k), answer_sort_order = snd (snd k),
          col = (\<lambda>c. case c of
                   Mean_probability \<Rightarrow> Num (mean probs)
                 | Median_probability \<Rightarrow> Num (median probs)
                 | Trimmed_mean_probability \<Rightarrow> trimmed_mean_prob probs (1 / 10)
                 | Geometric_mean_probability \<Rightarrow> geometric_mean_prob probs
                 | Geometric_mean_odds \<Rightarrow> geometric_mean_odds probs),
          n_forecasters = length (remdups (map s_guid grp)),
          a_resolved_probability = first_valid (map s_resolved_probability grp)\<rparr>)"

text \<open>
  The \<open>groupby(...).agg(...)\<close> of lines 40-53: one row per (question, day, bucket), the
  keys sorted, then the stable sort by the same key.
\<close>

definition pooled :: "snapshot list \<Rightarrow> agg_row list" where
  "pooled snapshots =
     sort_key (\<lambda>r. (a_qid r, a_day r, answer_sort_order r))
       (map (\<lambda>k. pool_group k (filter (\<lambda>s. snapshot_key s = k) snapshots))
            (sort (remdups (map snapshot_key snapshots))))"

text \<open>
  \<open>agg.groupby(["discover question id", "day"])[...].transform(f)\<close>: for every row, \<open>f\<close> of
  the rows of its (question, day) group.
\<close>

definition group_transform :: "(agg_row list \<Rightarrow> 'a) \<Rightarrow> agg_row list \<Rightarrow> 'a list" where
  "group_transform f agg =
     map (\<lambda>r. f (filter (\<lambda>r'. a_qid r' = a_qid r \<and> a_day r' = a_day r) agg)) agg"

text \<open>The group sum of pandas skips NaN; a number divided into NaN stays NaN.\<close>

fun numbers :: "pyfloat list \<Rightarrow> real list" where
  "numbers [] = []"
| "numbers (Num x # vs) = x # numbers vs"
| "numbers (NaN # vs) = numbers vs"

definition nansum :: "pyfloat list \<Rightarrow> real" where
  "nansum vs = sum_list (numbers vs)"

fun pyfloat_div :: "pyfloat \<Rightarrow> real \<Rightarrow> pyfloat" where
  "pyfloat_div (Num x) t = Num (x / t)"
| "pyfloat_div NaN t = NaN"

text \<open>One pass of the loop of lines 59-62, for the column \<open>c\<close>.\<close>

definition renormalize_col :: "bool list \<Rightarrow> prob_col \<Rightarrow> agg_row list \<Rightarrow> agg_row list" where
  "renormalize_col multi_bucket c agg =
     (let totals = group_transform (\<lambda>g. nansum (map (\<lambda>r. col r c) g)) agg;
          mask = map (\<lambda>(m, t). m \<and> t > 0) (zip multi_bucket totals)
      in map (\<lambda>(r, m, t). if m then r\<lparr>col := (col r)(c := pyfloat_div (col r c) t)\<rparr> else r)
             (zip agg (zip mask totals)))"

definition renormalize :: "agg_row list \<Rightarrow> agg_row list" where
  "renormalize agg =
     (let sizes = group_transform length agg;
          multi_bucket = map (\<lambda>n. n > 1) sizes
      in fold (renormalize_col multi_bucket) PROB_COLS agg)"

text \<open>
  \<open>aggregate_across_forecasters\<close>: an empty table for no snapshots, otherwise the pooled
  table renormalized, its numeric columns stored as float32 (lines 65-68).
\<close>

definition downcast_agg_row :: "agg_row \<Rightarrow> agg_row" where
  "downcast_agg_row r =
     r\<lparr>col := (\<lambda>c. pyfloat_astype_float32 (col r c)),
       a_resolved_probability := map_option astype_float32 (a_resolved_probability r)\<rparr>"

definition aggregate_across_forecasters :: "snapshot list \<Rightarrow> agg_row list" where
  "aggregate_across_forecasters snapshots =
     (if snapshots = [] then [] else map downcast_agg_row (renormalize (pooled snapshots)))"

text \<open>The rows of one (question, day) group, and a column of them.\<close>

definition group_rows :: "agg_row list \<Rightarrow> nat \<Rightarrow> int \<Rightarrow> agg_row list" where
  "group_rows agg q d = filter (\<lambda>r. a_qid r = q \<and> a_day r = d) agg"

definition column :: "prob_col \<Rightarrow> agg_row list \<Rightarrow> pyfloat list" where
  "column c rows = map (\<lambda>r. col r c) rows"

text \<open>
  For the proofs: the group total and the group size that a row of the pooled table sees,
  and the row after the passes for the columns in \<open>S\<close>.
\<close>

definition group_total :: "agg_row list \<Rightarrow> prob_col \<Rightarrow> agg_row \<Rightarrow> real" where
  "group_total agg c r =
     nansum (column c (filter (\<lambda>r'. a_qid r' = a_qid r \<and> a_day r' = a_day r) agg))"

definition multi :: "agg_row list \<Rightarrow> agg_row \<Rightarrow> bool" where
  "multi agg r \<longleftrightarrow> 1 < length (filter (\<lambda>r'. a_qid r' = a_qid r \<and> a_day r' = a_day r) agg)"

definition renormalized_row :: "prob_col set \<Rightarrow> agg_row list \<Rightarrow> agg_row \<Rightarrow> agg_row" where
  "renormalized_row S agg r =
     r\<lparr>col := (\<lambda>c. if c \<in> S \<and> multi agg r \<and> 0 < group_total agg c r
                     then pyfloat_div (col r c) (group_total agg c r) else col r c)\<rparr>"

text \<open>
  An example: question 1; on day 1 two forecasters give buckets 0 and 1, on day 2 there is
  one snapshot for bucket 0 alone.
\<close>

definition bucket_snap :: "string \<Rightarrow> int \<Rightarrow> int \<Rightarrow> real \<Rightarrow> snapshot" where
  "bucket_snap g d a p =
     \<lparr>s_qid = 1, s_guid = g, s_day = d, s_aso = a, s_prob = p,
      s_resolved_probability = Some (if a = 0 then 1 else 0)\<rparr>"

definition example_snapshots :: "snapshot list" where
  "example_snapshots =
     [bucket_snap ''a'' 1 0 (2 / 10), bucket_snap ''a'' 1 1 (6 / 10),
      bucket_snap ''b'' 1 0 (4 / 10), bucket_snap ''b'' 1 1 (6 / 10),
      bucket_snap ''a'' 2 0 (3 / 10)]"

section \<open>Freeze, rank and trim (pipeline.py)\<close>

text \<open>
  Phase A of \<open>run_aggregate_with_trimming\<close>, for a table that has the
  \<open>correctness_known_day\<close> column: the distinct (question, day) pairs without nulls,
  sorted by day; the freeze day is read at position \<open>max(0, ceil(f * len) - 1)\<close>, and
  \<open>iloc\<close> raises IndexError past the end.  Only the day column of the sorted pairs is
  read, so the order \<open>sort_values\<close> gives to pairs of the same day does not matter.
\<close>

definition dropna_pairs :: "('a \<times> 'b option) list \<Rightarrow> ('a \<times> 'b) list" where
  "dropna_pairs ps = concat (map (\<lambda>(q, d). case d of None \<Rightarrow> [] | Some d' \<Rightarrow> [(q, d')]) ps)"

definition q_ck :: "forecaster_day_row list \<Rightarrow> (nat \<times> int) list" where
  "q_ck forecaster_day =
     sort_key snd
       (pd_unique (dropna_pairs (map (\<lambda>r. (qid r, correctness_known_day r)) forecaster_day)))"

definition freeze_day :: "real \<Rightarrow> forecaster_day_row list \<Rightarrow> error + int" where
  "freeze_day resolved_fraction_at_freeze forecaster_day =
     (let qck = q_ck forecaster_day
      in if qck = [] then
           Inl (ValueError ''No resolved questions available to determine a freeze day.'')
         else
           let idx = max 0 (\<lceil>resolved_fraction_at_freeze * real (length qck)\<rceil> - 1)
           in if idx < int (length qck) then Inr (snd (qck ! nat idx)) else Inl IndexError)"


text \<open>
  Phase C, lines 230-236: with a non-empty excluded set, the rows selected by
  \<open>mask_drop\<close> are dropped and the others kept (\<open>.loc[~mask_drop]\<close>).
\<close>

definition mask_drop :: "int \<Rightarrow> string set \<Rightarrow> snapshot list \<Rightarrow> bool list" where
  "mask_drop freeze excluded_guids snapshots_full =
     map (\<lambda>(after, isin). after \<and> isin)
         (zip (map (\<lambda>s. s_day s > freeze) snapshots_full)
              (map (\<lambda>s. s_guid s \<in> excluded_guids) snapshots_full))"

definition trim_snapshots :: "int \<Rightarrow> string set \<Rightarrow> snapshot list \<Rightarrow> snapshot list" where
  "trim_snapshots freeze excluded_guids snapshots_full =
     (if excluded_guids \<noteq> {} then
        map fst (filter (\<lambda>(s, m). \<not> m)
                        (zip snapshots_full (mask_drop freeze excluded_guids snapshots_full)))
      else snapshots_full)"

definition removed_by_trim :: "int \<Rightarrow> string set \<Rightarrow> snapshot \<Rightarrow> bool" where
  "removed_by_trim freeze excluded_guids s \<longleftrightarrow> freeze < s_day s \<and> s_guid s \<in> excluded_guids"



text \<open>An example snapshot of forecaster \<open>g\<close> for bucket 0 of question 1 on day \<open>d\<close>.\<close>

definition snap :: "string \<Rightarrow> int \<Rightarrow> snapshot" where
  "snap g d =
     \<lparr>s_qid = 1, s_guid = g, s_day = d, s_aso = 0, s_prob = 1 / 2,
      s_resolved_probability = Some 1\<rparr>"

section \<open>Proofs\<close>

subsection \<open>Tables: distinct values\<close>

lemma set_pd_unique [simp]: "set (pd_unique xs) = set xs"
  by (simp add: pd_unique_def)

lemma distinct_pd_unique [simp]: "distinct (pd_unique xs)"
  by (simp add: pd_unique_def)

text \<open>Storage casts keep the values.\<close>

lemma astype_float32_fun: "astype_float32 = (\<lambda>x. x)"
  by (simp add: fun_eq_iff astype_float32_def)

lemma pyfloat_astype_float32_id: "pyfloat_astype_float32 v = v"
  by (cases v) (simp_all add: astype_float32_def)



lemma downcast_agg_row_id: "downcast_agg_row r = r"
  by (simp add: downcast_agg_row_def astype_float32_fun pyfloat_astype_float32_id option.map_ident)

lemma map_downcast_agg_row: "map downcast_agg_row rows = rows"
  by (rule map_idI) (rule downcast_agg_row_id)

subsection \<open>Ordered scoring rule\<close>

lemma length_cumsum_from: "length (cumsum_from acc xs) = length xs"
  by (induction xs arbitrary: acc) auto

lemma nth_cumsum_from:
  "j < length xs \<Longrightarrow> cumsum_from acc xs ! j = acc + (\<Sum>i \<le> j. xs ! i)"
proof (induction xs arbitrary: acc j)
  case Nil
  then show ?case by simp
next
  case (Cons x xs)
  show ?case
  proof (cases j)
    case 0
    then show ?thesis by simp
  next
    case (Suc k)
    with Cons.prems have k: "k < length xs" by simp
    have "(\<Sum>i \<le> Suc k. (x # xs) ! i) = x + (\<Sum>i \<le> k. xs ! i)"
      by (simp add: sum.atMost_Suc_shift del: sum.atMost_Suc)
    with Cons.IH [OF k, of "acc + x"] Suc show ?thesis by simp
  qed
qed

lemma length_cumsum: "length (cumsum xs) = length xs"
  by (simp add: cumsum_def length_cumsum_from)

lemma nth_cumsum: "j < length xs \<Longrightarrow> cumsum xs ! j = (\<Sum>i \<le> j. xs ! i)"
  by (simp add: cumsum_def nth_cumsum_from)

lemma one_hot_check:
  "list_all (\<lambda>v. v \<in> set [0, 1]) (np_unique outcome) \<longleftrightarrow> (\<forall>v \<in> set outcome. v = 0 \<or> v = 1)"
  by (auto simp: np_unique_def list_all_iff)

lemma score_vectors_one_hot:
  assumes "one_hot outcome"
  shows "score_vectors probs outcome =
     Inr (mean (map (\<lambda>d. 2 * d) (map (\<lambda>(f, t). (f - t)\<^sup>2)
        (zip (butlast (cumsum (if sum_list probs > 0 then map (\<lambda>p. p / sum_list probs) probs else probs)))
             (butlast (cumsum outcome))))))"
  using assms unfolding score_vectors_def one_hot_def Let_def one_hot_check by simp

lemma mean_splits:
  assumes "length fs = n" "length ts = n"
  shows "mean (map (\<lambda>d. 2 * d) (map (\<lambda>(f, t). (f - t)\<^sup>2) (zip (butlast fs) (butlast ts))))
       = (\<Sum>j < n - 1. 2 * (fs ! j - ts ! j)\<^sup>2) / real (n - 1)"
proof -
  let ?zs = "map (\<lambda>d. 2 * d) (map (\<lambda>(f, t). (f - t)\<^sup>2) (zip (butlast fs) (butlast ts)))"
  have len: "length ?zs = n - 1" using assms by simp
  have "sum_list ?zs = (\<Sum>j = 0..<n - 1. ?zs ! j)"
    using len by (simp only: sum_list_sum_nth)
  also have "\<dots> = (\<Sum>j = 0..<n - 1. 2 * (fs ! j - ts ! j)\<^sup>2)"
    using assms by (intro sum.cong) (auto simp: nth_butlast)
  finally show ?thesis using len by (simp add: mean_def lessThan_atLeast0)
qed

lemma ob_example: "ordered_brier [0, 1/2, 1/4, 1/4] [0, 1, 0, 0] = Inr (5/24)"
  by (simp add: ordered_brier_def ordered_brier_from_distribution_def array1_def ndim_def
      score_vectors_def np_unique_def cumsum_def mean_def Let_def power2_eq_square)


lemma score_vectors_raises_iff:
  "(\<exists>m. score_vectors probs outcome = Inl (ValueError m)) \<longleftrightarrow> \<not> one_hot outcome"
  unfolding score_vectors_def one_hot_def Let_def one_hot_check by auto

lemma score_vectors_cases:
  "(\<exists>m. score_vectors probs outcome = Inl (ValueError m)) \<or> (\<exists>s. score_vectors probs outcome = Inr s)"
  unfolding score_vectors_def Let_def by auto

lemma wf_1d: "wf_ndarray a \<Longrightarrow> ndim a = 1 \<Longrightarrow> shape a ! 0 = length (elems a)"
  by (cases a) (auto simp: wf_ndarray_def ndim_def length_Suc_conv)

text \<open>
  Claim C2.  For a forecast of length \<open>K \<ge> 2\<close> and a one-hot outcome of the same length,
  \<open>ordered_brier_from_distribution\<close> returns the arithmetic mean over the split points
  \<open>j = 0..K-2\<close> of \<open>2 * (P j - Y j)^2\<close>, where \<open>P j\<close> is the cumulative sum up to \<open>j\<close> of
  the forecast (rescaled to sum 1 when its raw sum is positive, left as it is otherwise)
  and \<open>Y j\<close> the cumulative sum of the outcome; and the call on \<open>[0, 0.5, 0.25, 0.25]\<close> and
  \<open>[0, 1, 0, 0]\<close> returns \<open>5/24\<close>.  The entries of the forecast need not be non-negative
  for this.
\<close>

theorem ordered_brier_mean_of_splits:
  assumes "2 \<le> length probs" and "length outcome = length probs" and "one_hot outcome"
  shows "ordered_brier probs outcome = Inr (spec_ordered_brier probs outcome)
       \<and> ordered_brier [0, 1/2, 1/4, 1/4] [0, 1, 0, 0] = Inr (5/24)"
proof
  let ?ps = "if sum_list probs > 0 then map (\<lambda>p. p / sum_list probs) probs else probs"
  have len: "length ?ps = length probs" by simp
  have resc: "?ps ! i = spec_rescaled probs i" if "i < length probs" for i
    using that by (simp add: spec_rescaled_def)
  have P: "cumsum ?ps ! j = (\<Sum>i \<le> j. spec_rescaled probs i)" if "j < length probs - 1" for j
  proof -
    have "cumsum ?ps ! j = (\<Sum>i \<le> j. ?ps ! i)"
      using that len by (intro nth_cumsum) simp
    also have "\<dots> = (\<Sum>i \<le> j. spec_rescaled probs i)"
      using that by (intro sum.cong refl resc) auto
    finally show ?thesis .
  qed
  have Y: "cumsum outcome ! j = (\<Sum>i \<le> j. outcome ! i)" if "j < length probs - 1" for j
    using that assms(2) by (intro nth_cumsum) simp
  have "ordered_brier probs outcome = score_vectors probs outcome"
    using assms(1,2)
    by (simp add: ordered_brier_def ordered_brier_from_distribution_def array1_def ndim_def)
  also have "\<dots> = Inr (mean (map (\<lambda>d. 2 * d) (map (\<lambda>(f, t). (f - t)\<^sup>2)
        (zip (butlast (cumsum ?ps)) (butlast (cumsum outcome))))))"
    by (rule score_vectors_one_hot [OF assms(3)])
  also have "mean (map (\<lambda>d. 2 * d) (map (\<lambda>(f, t). (f - t)\<^sup>2)
        (zip (butlast (cumsum ?ps)) (butlast (cumsum outcome)))))
      = (\<Sum>j < length probs - 1. 2 * (cumsum ?ps ! j - cumsum outcome ! j)\<^sup>2)
         / real (length probs - 1)"
    by (rule mean_splits) (simp_all only: length_cumsum len assms(2))
  also have "\<dots> = spec_ordered_brier probs outcome"
    unfolding spec_ordered_brier_def using P Y by simp
  finally show "ordered_brier probs outcome = Inr (spec_ordered_brier probs outcome)" .
next
  show "ordered_brier [0, 1/2, 1/4, 1/4] [0, 1, 0, 0] = Inr (5/24)"
    by (rule ob_example)
qed

theorem ordered_brier_mean_of_splits_witness:
  "one_hot [0, 0, 1]
   \<and> ordered_brier [1/5, 3/10, 1/2] [0, 0, 1] = Inr (spec_ordered_brier [1/5, 3/10, 1/2] [0, 0, 1])
   \<and> spec_ordered_brier [1/5, 3/10, 1/2] [0, 0, 1] = 29/100"
proof -
  have h: "one_hot [0, 0, 1]" by (simp add: one_hot_def)
  have v: "spec_ordered_brier [1/5, 3/10, 1/2] [0, 0, 1] = 29/100"
    by (simp add: spec_ordered_brier_def spec_rescaled_def lessThan_Suc atMost_Suc
        numeral_2_eq_2 power2_eq_square)
  from ordered_brier_mean_of_splits [of "[1/5, 3/10, 1/2]" "[0, 0, 1]", OF _ _ h] h v
  show ?thesis by simp
qed

text \<open>
  Claim C7.  On well-formed arrays, \<open>ordered_brier_from_distribution\<close> raises
  \<open>ValueError\<close> exactly when \<open>probs\<close> or \<open>outcome\<close> is not 1-dimensional, or their lengths
  differ, or the outcome (after the K=1 complement expansion) holds a value other than 0
  and 1, or the number of its entries equal to 1 is not exactly one; on every other input
  it returns a score.
\<close>

theorem ordered_brier_raises_iff:
  assumes "wf_ndarray probs" and "wf_ndarray outcome"
  shows "((\<exists>m. ordered_brier_from_distribution probs outcome = Inl (ValueError m))
            \<longleftrightarrow> spec_invalid_input probs outcome)
       \<and> ((\<exists>s. ordered_brier_from_distribution probs outcome = Inr s)
            \<longleftrightarrow> \<not> spec_invalid_input probs outcome)"
proof -
  have raises: "(\<exists>m. ordered_brier_from_distribution probs outcome = Inl (ValueError m))
            \<longleftrightarrow> spec_invalid_input probs outcome"
  proof (cases "ndim probs \<noteq> 1 \<or> ndim outcome \<noteq> 1")
    case True
    then show ?thesis
      by (auto simp: ordered_brier_from_distribution_def spec_invalid_input_def)
  next
    case False
    then have d: "ndim probs = 1" "ndim outcome = 1" by auto
    have lp: "shape probs ! 0 = length (elems probs)" by (rule wf_1d [OF assms(1) d(1)])
    have lo: "shape outcome ! 0 = length (elems outcome)" by (rule wf_1d [OF assms(2) d(2)])
    show ?thesis
    proof (cases "length (elems probs) = length (elems outcome)")
      case False
      then show ?thesis using d lp lo
        by (auto simp: ordered_brier_from_distribution_def spec_invalid_input_def)
    next
      case True
      show ?thesis
      proof (cases "length (elems probs) = 1")
        case one: True
        then have "ordered_brier_from_distribution probs outcome
            = score_vectors [elems probs ! 0, 1 - elems probs ! 0]
                (complement_expansion (elems outcome))"
          using d lp lo True
          by (simp add: ordered_brier_from_distribution_def complement_expansion_def Let_def)
        then show ?thesis using d True score_vectors_raises_iff
          by (auto simp: spec_invalid_input_def one_hot_def)
      next
        case many: False
        then have "ordered_brier_from_distribution probs outcome
            = score_vectors (elems probs) (complement_expansion (elems outcome))"
          using d lp lo True
          by (simp add: ordered_brier_from_distribution_def complement_expansion_def)
        then show ?thesis using d True score_vectors_raises_iff
          by (auto simp: spec_invalid_input_def one_hot_def)
      qed
    qed
  qed
  have cases: "(\<exists>m. ordered_brier_from_distribution probs outcome = Inl (ValueError m))
      \<or> (\<exists>s. ordered_brier_from_distribution probs outcome = Inr s)"
    using score_vectors_cases
    by (auto simp: ordered_brier_from_distribution_def Let_def)
  from raises cases show ?thesis by auto
qed

theorem ordered_brier_raises_iff_witness:
  "wf_ndarray (array1 [1/2, 1/2]) \<and> wf_ndarray (array1 [1, 1]) \<and> wf_ndarray (array1 [0, 1])
   \<and> (\<exists>m. ordered_brier_from_distribution (array1 [1/2, 1/2]) (array1 [1/2, 1/2]) = Inl (ValueError m))
   \<and> (\<exists>m. ordered_brier_from_distribution (array1 [1/2, 1/2]) (array1 [1, 1]) = Inl (ValueError m))
   \<and> (\<exists>s. ordered_brier_from_distribution (array1 [1/2, 1/2]) (array1 [0, 1]) = Inr s)"
proof -
  have w1: "wf_ndarray (array1 [1/2, 1/2])" by (simp add: wf_ndarray_def array1_def)
  have w2: "wf_ndarray (array1 [1, 1])" by (simp add: wf_ndarray_def array1_def)
  have w3: "wf_ndarray (array1 [0, 1])" by (simp add: wf_ndarray_def array1_def)
  have i1: "spec_invalid_input (array1 [1/2, 1/2]) (array1 [1/2, 1/2])"
    by (simp add: spec_invalid_input_def complement_expansion_def array1_def)
  have i2: "spec_invalid_input (array1 [1/2, 1/2]) (array1 [1, 1])"
    by (simp add: spec_invalid_input_def complement_expansion_def array1_def)
  have i3: "\<not> spec_invalid_input (array1 [1/2, 1/2]) (array1 [0, 1])"
    by (simp add: spec_invalid_input_def complement_expansion_def array1_def ndim_def)
  from ordered_brier_raises_iff [OF w1 w1] ordered_brier_raises_iff [OF w1 w2]
    ordered_brier_raises_iff [OF w1 w3] w1 w2 w3 i1 i2 i3
  show ?thesis by simp
qed

text \<open>
  Claim C8.  For an outcome \<open>y\<close> that is 0 or 1 and any \<open>p\<close> (in particular any \<open>p\<close> in
  \<open>[0, 1]\<close>), the call on \<open>[p]\<close> and \<open>[y]\<close> returns what the call on \<open>[p, 1 - p]\<close> and
  \<open>[y, 1 - y]\<close> returns: the single bucket is scored as the binary split against its
  complement, \<open>2 * (p - y)^2\<close>.
\<close>

theorem ordered_brier_single_bucket:
  assumes "y = 0 \<or> y = 1"
  shows "ordered_brier [p] [y] = ordered_brier [p, 1 - p] [y, 1 - y]
       \<and> ordered_brier [p] [y] = Inr (2 * (p - y)\<^sup>2)"
  using assms
  by (auto simp: ordered_brier_def ordered_brier_from_distribution_def array1_def ndim_def
      score_vectors_def np_unique_def cumsum_def mean_def Let_def)

theorem ordered_brier_single_bucket_witness:
  "ordered_brier [3/5] [1] = ordered_brier [3/5, 2/5] [1, 0]
   \<and> ordered_brier [3/5] [1] = Inr (8/25)"
proof -
  have e: "ordered_brier [3/5] [1] = ordered_brier [3/5, 1 - 3/5] [1, 1 - 1]
      \<and> ordered_brier [3/5] [1] = Inr (2 * (3/5 - 1)\<^sup>2)"
    by (rule ordered_brier_single_bucket) simp
  have a: "[3/5, 1 - 3/5] = [3/5, 2/5::real]" by simp
  have b: "[1, 1 - 1] = [1, 0::real]" by simp
  have c: "2 * (3/5 - 1)\<^sup>2 = (8/25::real)" by (simp add: power2_eq_square)
  from e [unfolded a b c] show ?thesis .
qed

subsection \<open>Estimators: ranges of the geometric means\<close>

lemma sum_list_bounds:
  fixes xs :: "real list"
  assumes "\<forall>x \<in> set xs. lo \<le> x \<and> x \<le> hi"
  shows "lo * real (length xs) \<le> sum_list xs \<and> sum_list xs \<le> hi * real (length xs)"
  using assms by (induction xs) (auto simp: algebra_simps)

lemma mean_bounds:
  assumes "xs \<noteq> []" and "\<forall>x \<in> set xs. lo \<le> x \<and> x \<le> hi"
  shows "lo \<le> mean xs \<and> mean xs \<le> hi"
proof -
  have n: "0 < real (length xs)" using assms(1) by simp
  from sum_list_bounds [OF assms(2)] n show ?thesis
    by (simp add: mean_def pos_le_divide_eq pos_divide_le_eq)
qed

lemma clip_range: "lo \<le> hi \<Longrightarrow> lo \<le> clip lo hi x \<and> clip lo hi x \<le> hi"
  by (auto simp: clip_def)

lemma EPS_bounds: "0 < EPS" "EPS \<le> 1 - EPS" "EPS < 1" "1 - EPS < 1"
  by (simp_all add: EPS_def)

lemma geometric_mean_prob_range:
  assumes "probs \<noteq> []" and "\<forall>p \<in> set probs. 0 \<le> p"
  shows "\<exists>v. geometric_mean_prob probs = Num v \<and> EPS \<le> v \<and> v \<le> 1 - EPS"
proof -
  let ?arr = "map (clip EPS (1 - EPS)) probs"
  have r: "\<forall>a \<in> set ?arr. EPS \<le> a \<and> a \<le> 1 - EPS"
    using clip_range [OF EPS_bounds(2)] by auto
  have "\<forall>l \<in> set (map ln ?arr). ln EPS \<le> l \<and> l \<le> ln (1 - EPS)"
  proof
    fix l assume "l \<in> set (map ln ?arr)"
    then obtain a where a: "a \<in> set ?arr" "l = ln a" by auto
    with r have "EPS \<le> a" "a \<le> 1 - EPS" by auto
    with EPS_bounds(1) a(2) show "ln EPS \<le> l \<and> l \<le> ln (1 - EPS)"
      by (auto intro!: ln_mono simp del: ln_le_cancel_iff)
  qed
  moreover have "map ln ?arr \<noteq> []" using assms(1) by simp
  ultimately have m: "ln EPS \<le> mean (map ln ?arr) \<and> mean (map ln ?arr) \<le> ln (1 - EPS)"
    by (rule mean_bounds [rotated])
  have e1: "exp (ln EPS) = EPS" using EPS_bounds(1) by simp
  have e2: "exp (ln (1 - EPS)) = 1 - EPS" using EPS_bounds(4) by (simp add: EPS_def)
  from m have "exp (ln EPS) \<le> exp (mean (map ln ?arr))"
      "exp (mean (map ln ?arr)) \<le> exp (ln (1 - EPS))"
    by simp_all
  then have "EPS \<le> exp (mean (map ln ?arr)) \<and> exp (mean (map ln ?arr)) \<le> 1 - EPS"
    by (simp only: e1 e2)
  moreover have "geometric_mean_prob probs = Num (exp (mean (map ln ?arr)))"
    using assms by (auto simp: geometric_mean_prob_def Let_def)
  ultimately show ?thesis by blast
qed

lemma geometric_mean_odds_range:
  assumes "probs \<noteq> []" and "\<forall>p \<in> set probs. 0 \<le> p \<and> p \<le> 1"
  shows "\<exists>v. geometric_mean_odds probs = Num v \<and> 0 < v \<and> v < 1"
proof -
  define og where "og = exp (mean (map ln (map (\<lambda>a. a / (1 - a)) (map (clip EPS (1 - EPS)) probs))))"
  have pos: "0 < og" by (simp add: og_def)
  have "geometric_mean_odds probs = Num (og / (1 + og))"
    using assms by (auto simp: geometric_mean_odds_def Let_def og_def not_less simp del: map_map)
  moreover have "0 < og / (1 + og)" "og / (1 + og) < 1" using pos by simp_all
  ultimately show ?thesis by blast
qed

lemma geometric_mean_prob_negative:
  "\<exists>p \<in> set probs. p < 0 \<Longrightarrow> geometric_mean_prob probs = NaN"
  by (auto simp: geometric_mean_prob_def)

lemma geometric_mean_odds_outside:
  "\<exists>p \<in> set probs. p < 0 \<or> 1 < p \<Longrightarrow> geometric_mean_odds probs = NaN"
  by (auto simp: geometric_mean_odds_def)

text \<open>
  Claim C9.  For a non-empty list of values in \<open>[0, 1]\<close>, \<open>geometric_mean_prob\<close> and
  \<open>geometric_mean_odds\<close> each return a number in \<open>[0, 1]\<close>; for a list with a negative
  value both return NaN, and \<open>geometric_mean_odds\<close> returns NaN for a list with any value
  outside \<open>[0, 1]\<close>.  Both functions are total: they return a value on every input.
\<close>

theorem geometric_means_in_unit_interval_or_nan:
  "(probs \<noteq> [] \<and> (\<forall>p \<in> set probs. 0 \<le> p \<and> p \<le> 1) \<longrightarrow>
      (\<exists>v. geometric_mean_prob probs = Num v \<and> 0 \<le> v \<and> v \<le> 1) \<and>
      (\<exists>w. geometric_mean_odds probs = Num w \<and> 0 \<le> w \<and> w \<le> 1))
   \<and> ((\<exists>p \<in> set probs. p < 0) \<longrightarrow>
        geometric_mean_prob probs = NaN \<and> geometric_mean_odds probs = NaN)
   \<and> ((\<exists>p \<in> set probs. p < 0 \<or> 1 < p) \<longrightarrow> geometric_mean_odds probs = NaN)"
proof (intro conjI impI)
  assume a: "probs \<noteq> [] \<and> (\<forall>p \<in> set probs. 0 \<le> p \<and> p \<le> 1)"
  then have "\<exists>v. geometric_mean_prob probs = Num v \<and> EPS \<le> v \<and> v \<le> 1 - EPS"
    by (intro geometric_mean_prob_range) auto
  then show "\<exists>v. geometric_mean_prob probs = Num v \<and> 0 \<le> v \<and> v \<le> 1"
    using EPS_bounds(1) by force
  from a have "\<exists>w. geometric_mean_odds probs = Num w \<and> 0 < w \<and> w < 1"
    by (intro geometric_mean_odds_range) auto
  then show "\<exists>w. geometric_mean_odds probs = Num w \<and> 0 \<le> w \<and> w \<le> 1"
    by force
next
  assume "\<exists>p \<in> set probs. p < 0"
  then show "geometric_mean_prob probs = NaN"
    by (rule geometric_mean_prob_negative)
next
  assume "\<exists>p \<in> set probs. p < 0"
  then have "\<exists>p \<in> set probs. p < 0 \<or> 1 < p" by blast
  then show "geometric_mean_odds probs = NaN"
    by (rule geometric_mean_odds_outside)
next
  assume "\<exists>p \<in> set probs. p < 0 \<or> 1 < p"
  then show "geometric_mean_odds probs = NaN"
    by (rule geometric_mean_odds_outside)
qed

theorem geometric_means_in_unit_interval_or_nan_witness:
  "(\<exists>v. geometric_mean_prob [0, 1/2, 1] = Num v \<and> 0 \<le> v \<and> v \<le> 1)
   \<and> (\<exists>w. geometric_mean_odds [0, 1/2, 1] = Num w \<and> 0 \<le> w \<and> w \<le> 1)
   \<and> geometric_mean_prob [1/2, -1] = NaN
   \<and> geometric_mean_odds [1/2, -1] = NaN
   \<and> geometric_mean_odds [1/2, 3/2] = NaN"
proof -
  have h1: "[0, 1/2, 1] \<noteq> [] \<and> (\<forall>p \<in> set [0, 1/2, 1::real]. 0 \<le> p \<and> p \<le> 1)" by simp
  have h2: "\<exists>p \<in> set [1/2, -1::real]. p < 0" by simp
  have h3: "\<exists>p \<in> set [1/2, 3/2::real]. p < 0 \<or> 1 < p"
    by (rule bexI [of _ "3/2"]) simp_all
  from geometric_means_in_unit_interval_or_nan [of "[0, 1/2, 1]"] h1
  have "(\<exists>v. geometric_mean_prob [0, 1/2, 1] = Num v \<and> 0 \<le> v \<and> v \<le> 1)
      \<and> (\<exists>w. geometric_mean_odds [0, 1/2, 1] = Num w \<and> 0 \<le> w \<and> w \<le> 1)"
    by blast
  moreover from geometric_means_in_unit_interval_or_nan [of "[1/2, -1]"] h2
  have "geometric_mean_prob [1/2, -1] = NaN \<and> geometric_mean_odds [1/2, -1] = NaN"
    by blast
  moreover from geometric_means_in_unit_interval_or_nan [of "[1/2, 3/2]"] h3
  have "geometric_mean_odds [1/2, 3/2] = NaN"
    by blast
  ultimately show ?thesis by blast
qed



subsection \<open>Aggregator: renormalization\<close>

lemma nansum_pyfloat_div: "nansum (map (\<lambda>v. pyfloat_div v t) vs) = nansum vs / t"
proof (induction vs)
  case Nil
  then show ?case by (simp add: nansum_def)
next
  case (Cons v vs)
  then show ?case by (cases v) (simp_all add: nansum_def add_divide_distrib)
qed

lemma masked_update_rows:
  "map (\<lambda>(r, m, t). if m then U r t else r)
       (zip (map g xs) (zip (map (\<lambda>(m, t). m \<and> 0 < t) (zip (map M xs) (map T (map g xs))))
                            (map T (map g xs))))
   = map (\<lambda>x. if M x \<and> 0 < T (g x) then U (g x) (T (g x)) else g x) xs"
  by (induction xs) simp_all

lemma renormalized_row_keys [simp]:
  "a_qid (renormalized_row S agg r) = a_qid r" "a_day (renormalized_row S agg r) = a_day r"
  by (simp_all add: renormalized_row_def)

lemma renormalized_row_empty: "renormalized_row {} agg r = r"
  by (simp add: renormalized_row_def)

lemma group_total_after:
  assumes "c \<notin> S"
  shows "group_total (map (renormalized_row S agg) agg) c (renormalized_row S agg r)
       = group_total agg c r"
proof -
  have "filter (\<lambda>r'. a_qid r' = a_qid r \<and> a_day r' = a_day r) (map (renormalized_row S agg) agg)
      = map (renormalized_row S agg) (filter (\<lambda>r'. a_qid r' = a_qid r \<and> a_day r' = a_day r) agg)"
    by (simp add: filter_map o_def)
  moreover have "column c (map (renormalized_row S agg) xs) = column c xs" for xs
    using assms by (simp add: column_def renormalized_row_def)
  ultimately show ?thesis by (simp add: group_total_def)
qed

lemma renormalize_col_step:
  assumes "c \<notin> S"
  shows "renormalize_col (map (multi agg) agg) c (map (renormalized_row S agg) agg)
       = map (renormalized_row (insert c S) agg) agg"
proof -
  let ?X = "map (renormalized_row S agg) agg"
  let ?T = "\<lambda>r. nansum (map (\<lambda>r'. col r' c)
               (filter (\<lambda>r'. a_qid r' = a_qid r \<and> a_day r' = a_day r) ?X))"
  have T: "?T (renormalized_row S agg r) = group_total agg c r" for r
    using group_total_after [OF assms, of agg r] by (simp add: group_total_def column_def)
  have "renormalize_col (map (multi agg) agg) c ?X
      = map (\<lambda>x. if multi agg x \<and> 0 < ?T (renormalized_row S agg x)
                  then (renormalized_row S agg x)\<lparr>col := (col (renormalized_row S agg x))
                         (c := pyfloat_div (col (renormalized_row S agg x) c)
                                 (?T (renormalized_row S agg x)))\<rparr>
                  else renormalized_row S agg x) agg"
    unfolding renormalize_col_def group_transform_def Let_def
    by (rule masked_update_rows
        [where U = "\<lambda>r t. r\<lparr>col := (col r)(c := pyfloat_div (col r c) t)\<rparr>" and T = ?T])
  also have "\<dots> = map (renormalized_row (insert c S) agg) agg"
  proof (rule map_cong [OF refl])
    fix x
    show "(if multi agg x \<and> 0 < ?T (renormalized_row S agg x)
           then (renormalized_row S agg x)\<lparr>col := (col (renormalized_row S agg x))
                  (c := pyfloat_div (col (renormalized_row S agg x) c)
                          (?T (renormalized_row S agg x)))\<rparr>
           else renormalized_row S agg x) = renormalized_row (insert c S) agg x"
      unfolding T using assms by (auto simp: renormalized_row_def fun_eq_iff)
  qed
  finally show ?thesis .
qed

lemma renormalize_cols_fold:
  assumes "distinct cs" and "set cs \<inter> S = {}"
  shows "fold (renormalize_col (map (multi agg) agg)) cs (map (renormalized_row S agg) agg)
       = map (renormalized_row (S \<union> set cs) agg) agg"
  using assms
proof (induction cs arbitrary: S)
  case Nil
  then show ?case by simp
next
  case (Cons c cs)
  then have c: "c \<notin> S" and d: "distinct cs" and i: "set cs \<inter> insert c S = {}" by auto
  show ?case
    using Cons.IH [OF d i] by (simp add: renormalize_col_step [OF c])
qed

lemma set_PROB_COLS: "set PROB_COLS = UNIV"
proof -
  have "c \<in> set PROB_COLS" for c by (cases c) (simp_all add: PROB_COLS_def)
  then show ?thesis by auto
qed

lemma renormalize_rows: "renormalize agg = map (renormalized_row UNIV agg) agg"
proof -
  have d: "distinct PROB_COLS" by (simp add: PROB_COLS_def)
  have mb: "map (\<lambda>n. 1 < n) (group_transform length agg) = map (multi agg) agg"
    unfolding group_transform_def multi_def map_map o_def ..
  have e: "map (renormalized_row {} agg) agg = agg"
    by (rule map_idI) (simp add: renormalized_row_empty)
  have "renormalize agg = fold (renormalize_col (map (multi agg) agg)) PROB_COLS
          (map (renormalized_row {} agg) agg)"
    unfolding renormalize_def Let_def mb e ..
  also have "\<dots> = map (renormalized_row ({} \<union> set PROB_COLS) agg) agg"
    by (rule renormalize_cols_fold [OF d]) simp
  finally show ?thesis by (simp add: set_PROB_COLS)
qed

lemma group_rows_renormalize:
  "column c (group_rows (renormalize agg) q d)
     = (if 1 < length (group_rows agg q d) \<and> 0 < nansum (column c (group_rows agg q d))
        then map (\<lambda>v. pyfloat_div v (nansum (column c (group_rows agg q d))))
                 (column c (group_rows agg q d))
        else column c (group_rows agg q d))"
proof -
  let ?G = "group_rows agg q d"
  have g: "group_rows (renormalize agg) q d = map (renormalized_row UNIV agg) ?G"
    by (simp add: renormalize_rows group_rows_def filter_map o_def)
  have same: "filter (\<lambda>r'. a_qid r' = a_qid r \<and> a_day r' = a_day r) agg = ?G" if "r \<in> set ?G" for r
    using that by (simp add: group_rows_def)
  have row: "col (renormalized_row UNIV agg r) c
      = (if 1 < length ?G \<and> 0 < nansum (column c ?G)
         then pyfloat_div (col r c) (nansum (column c ?G)) else col r c)" if "r \<in> set ?G" for r
    by (simp add: renormalized_row_def multi_def group_total_def same [OF that])
  have "column c (map (renormalized_row UNIV agg) ?G)
      = map (\<lambda>r. col (renormalized_row UNIV agg r) c) ?G"
    by (simp add: column_def)
  also have "\<dots> = map (\<lambda>r. if 1 < length ?G \<and> 0 < nansum (column c ?G)
                  then pyfloat_div (col r c) (nansum (column c ?G)) else col r c) ?G"
    by (rule map_cong [OF refl]) (rule row)
  finally have m: "column c (group_rows (renormalize agg) q d)
      = map (\<lambda>r. if 1 < length ?G \<and> 0 < nansum (column c ?G)
                  then pyfloat_div (col r c) (nansum (column c ?G)) else col r c) ?G"
    unfolding g .
  define b where "b \<longleftrightarrow> 1 < length ?G \<and> 0 < nansum (column c ?G)"
  define t where "t = nansum (column c ?G)"
  have m': "column c (group_rows (renormalize agg) q d)
      = map (\<lambda>r. if b then pyfloat_div (col r c) t else col r c) ?G"
    unfolding b_def t_def by (rule m)
  have "column c (group_rows (renormalize agg) q d)
      = (if b then map (\<lambda>v. pyfloat_div v t) (column c ?G) else column c ?G)"
    unfolding m' by (cases b) (simp_all add: column_def)
  then show ?thesis unfolding b_def t_def .
qed

lemma pooled_Nil: "pooled [] = []"
  by (simp add: pooled_def)

lemma pool_group_keys:
  "a_qid (pool_group k grp) = fst k" "a_day (pool_group k grp) = fst (snd k)"
  "answer_sort_order (pool_group k grp) = snd (snd k)"
  by (simp_all add: pool_group_def Let_def)

lemma pool_group_mean: "col (pool_group k grp) Mean_probability = Num (mean (map s_prob grp))"
  by (simp add: pool_group_def Let_def)

text \<open>
  Claim C4.  In the output of \<open>aggregate_across_forecasters\<close>, for every (question, day)
  group and each of the five method columns: when the group has at least two buckets and
  the column's pooled values sum (as pandas sums a group, skipping NaN) to a strictly
  positive total, the emitted values of the group sum to 1 (so within \<open>1e-6\<close> of 1); when
  the group has exactly one bucket, or the total is not strictly positive, the emitted
  values are the pooled values.  The output has the rows of the pooled table.
\<close>

theorem aggregate_renormalization:
  "(2 \<le> length (group_rows (pooled snapshots) q d)
      \<and> 0 < nansum (column c (group_rows (pooled snapshots) q d)) \<longrightarrow>
        nansum (column c (group_rows (aggregate_across_forecasters snapshots) q d)) = 1
        \<and> \<bar>nansum (column c (group_rows (aggregate_across_forecasters snapshots) q d)) - 1\<bar>
            \<le> 1 / 10 ^ 6)
   \<and> (length (group_rows (pooled snapshots) q d) = 1
      \<or> \<not> 0 < nansum (column c (group_rows (pooled snapshots) q d)) \<longrightarrow>
        column c (group_rows (aggregate_across_forecasters snapshots) q d)
          = column c (group_rows (pooled snapshots) q d))
   \<and> length (group_rows (aggregate_across_forecasters snapshots) q d)
       = length (group_rows (pooled snapshots) q d)"
proof -
  let ?raw = "group_rows (pooled snapshots) q d"
  let ?out = "group_rows (aggregate_across_forecasters snapshots) q d"
  have agg: "aggregate_across_forecasters snapshots = renormalize (pooled snapshots)"
    by (simp add: aggregate_across_forecasters_def pooled_Nil renormalize_rows map_downcast_agg_row
        downcast_agg_row_id)
  have col: "column c ?out
     = (if 1 < length ?raw \<and> 0 < nansum (column c ?raw)
        then map (\<lambda>v. pyfloat_div v (nansum (column c ?raw))) (column c ?raw)
        else column c ?raw)"
    unfolding agg by (rule group_rows_renormalize)
  have one: "nansum (column c ?out) = 1"
    if "2 \<le> length ?raw \<and> 0 < nansum (column c ?raw)"
  proof -
    from that have "column c ?out = map (\<lambda>v. pyfloat_div v (nansum (column c ?raw))) (column c ?raw)"
      unfolding col by simp
    then have "nansum (column c ?out) = nansum (column c ?raw) / nansum (column c ?raw)"
      by (simp only: nansum_pyfloat_div)
    with that show ?thesis by simp
  qed
  have same: "column c ?out = column c ?raw"
    if "length ?raw = 1 \<or> \<not> 0 < nansum (column c ?raw)"
    using that unfolding col by auto
  have len: "length ?out = length ?raw"
    unfolding agg by (simp add: renormalize_rows group_rows_def filter_map o_def)
  from one same len show ?thesis by simp
qed

theorem aggregate_renormalization_witness:
  "column Mean_probability (group_rows (pooled example_snapshots) 1 1) = [Num (3 / 10), Num (6 / 10)]
   \<and> nansum (column Mean_probability (group_rows (aggregate_across_forecasters example_snapshots) 1 1)) = 1
   \<and> column Mean_probability (group_rows (pooled example_snapshots) 1 2) = [Num (3 / 10)]
   \<and> column Mean_probability (group_rows (aggregate_across_forecasters example_snapshots) 1 2)
       = [Num (3 / 10)]"
proof -
  have p: "pooled example_snapshots =
      [pool_group (1, 1, 0) [bucket_snap ''a'' 1 0 (2 / 10), bucket_snap ''b'' 1 0 (4 / 10)],
       pool_group (1, 1, 1) [bucket_snap ''a'' 1 1 (6 / 10), bucket_snap ''b'' 1 1 (6 / 10)],
       pool_group (1, 2, 0) [bucket_snap ''a'' 2 0 (3 / 10)]]"
    by (simp add: pooled_def example_snapshots_def snapshot_key_def bucket_snap_def
        pool_group_keys)
  have g1: "column Mean_probability (group_rows (pooled example_snapshots) 1 1)
      = [Num (3 / 10), Num (6 / 10)]"
    unfolding p
    by (simp add: group_rows_def column_def pool_group_keys pool_group_mean bucket_snap_def mean_def)
  have g2: "column Mean_probability (group_rows (pooled example_snapshots) 1 2) = [Num (3 / 10)]"
    unfolding p
    by (simp add: group_rows_def column_def pool_group_keys pool_group_mean bucket_snap_def mean_def)
  have h1: "2 \<le> length (group_rows (pooled example_snapshots) 1 1)
      \<and> 0 < nansum (column Mean_probability (group_rows (pooled example_snapshots) 1 1))"
    unfolding g1 by (simp add: p group_rows_def pool_group_keys nansum_def)
  have h2: "length (group_rows (pooled example_snapshots) 1 2) = 1"
    by (simp add: p group_rows_def pool_group_keys)
  from aggregate_renormalization [of example_snapshots 1 1 Mean_probability] h1
  have "nansum (column Mean_probability
          (group_rows (aggregate_across_forecasters example_snapshots) 1 1)) = 1"
    by blast
  moreover from aggregate_renormalization [of example_snapshots 1 2 Mean_probability] h2
  have "column Mean_probability (group_rows (aggregate_across_forecasters example_snapshots) 1 2)
      = column Mean_probability (group_rows (pooled example_snapshots) 1 2)"
    by blast
  ultimately show ?thesis using g1 g2 by simp
qed

subsection \<open>Freeze day and trimming\<close>






text \<open>A fraction above 1 points past the last day: the lookup raises IndexError.\<close>

lemma freeze_day_fraction_above_one:
  assumes "q_ck fd \<noteq> []" and "1 < f"
  shows "freeze_day f fd = Inl IndexError"
proof -
  let ?n = "length (q_ck fd)"
  have n: "0 < real ?n" using assms(1) by simp
  then have "real ?n < f * real ?n" using assms(2) by simp
  then have "int ?n < \<lceil>f * real ?n\<rceil>" by (simp add: less_ceiling_iff)
  then have "\<not> max 0 (\<lceil>f * real ?n\<rceil> - 1) < int ?n" by simp
  then show ?thesis using assms(1) by (simp add: freeze_day_def Let_def)
qed



lemma select_not_mask:
  "map fst (filter (\<lambda>(s, m). \<not> m) (zip xs (map f xs))) = filter (\<lambda>s. \<not> f s) xs"
  by (induction xs) simp_all

lemma mask_drop_rows:
  "mask_drop fz E snaps = map (removed_by_trim fz E) snaps"
  by (induction snaps) (simp_all add: mask_drop_def removed_by_trim_def)

lemma trim_snapshots_filter:
  "E \<noteq> {} \<Longrightarrow> trim_snapshots fz E snaps = filter (\<lambda>s. \<not> removed_by_trim fz E s) snaps"
  by (simp add: trim_snapshots_def mask_drop_rows select_not_mask)

text \<open>
  Claim C6.  With a non-empty excluded set, the trimmed table is the full-period table
  without the rows whose day is strictly after the freeze day and whose forecaster is
  excluded: a row is in the result exactly when it is a row of the input that is not of
  that kind, and the rows dated on or before the freeze day and the rows of forecasters
  that are not excluded are all kept, unchanged and in order.
\<close>

theorem trim_removes_only_excluded_after_freeze:
  assumes "E \<noteq> {}"
  shows "trim_snapshots fz E snaps = filter (\<lambda>s. \<not> (fz < s_day s \<and> s_guid s \<in> E)) snaps
       \<and> (\<forall>s. s \<in> set (trim_snapshots fz E snaps)
                \<longleftrightarrow> s \<in> set snaps \<and> \<not> (fz < s_day s \<and> s_guid s \<in> E))
       \<and> filter (\<lambda>s. s_day s \<le> fz) (trim_snapshots fz E snaps) = filter (\<lambda>s. s_day s \<le> fz) snaps
       \<and> filter (\<lambda>s. s_guid s \<notin> E) (trim_snapshots fz E snaps) = filter (\<lambda>s. s_guid s \<notin> E) snaps"
proof -
  have t: "trim_snapshots fz E snaps = filter (\<lambda>s. \<not> (fz < s_day s \<and> s_guid s \<in> E)) snaps"
    using trim_snapshots_filter [OF assms] by (simp add: removed_by_trim_def)
  have "filter (\<lambda>s. s_day s \<le> fz) (trim_snapshots fz E snaps) = filter (\<lambda>s. s_day s \<le> fz) snaps"
    unfolding t filter_filter by (rule filter_cong) auto
  moreover
  have "filter (\<lambda>s. s_guid s \<notin> E) (trim_snapshots fz E snaps) = filter (\<lambda>s. s_guid s \<notin> E) snaps"
    unfolding t filter_filter by (rule filter_cong) auto
  moreover
  have "\<forall>s. s \<in> set (trim_snapshots fz E snaps)
                \<longleftrightarrow> s \<in> set snaps \<and> \<not> (fz < s_day s \<and> s_guid s \<in> E)"
    unfolding t by auto
  ultimately show ?thesis using t by blast
qed

theorem trim_removes_only_excluded_after_freeze_witness:
  "trim_snapshots 5 {''G''} [snap ''G'' 4, snap ''H'' 4, snap ''G'' 5, snap ''G'' 6, snap ''H'' 6]
     = [snap ''G'' 4, snap ''H'' 4, snap ''G'' 5, snap ''H'' 6]"
proof -
  have ne: "{''G''} \<noteq> ({} :: string set)" by simp
  have "trim_snapshots 5 {''G''} [snap ''G'' 4, snap ''H'' 4, snap ''G'' 5, snap ''G'' 6, snap ''H'' 6]
      = filter (\<lambda>s. \<not> (5 < s_day s \<and> s_guid s \<in> {''G''}))
          [snap ''G'' 4, snap ''H'' 4, snap ''G'' 5, snap ''G'' 6, snap ''H'' 6]"
    using trim_removes_only_excluded_after_freeze [OF ne, of 5] by blast
  then show ?thesis by (simp add: snap_def)
qed

lemma trim_snapshots_nobody_excluded: "trim_snapshots fz {} snaps = snaps"
  by (simp add: trim_snapshots_def)

subsection \<open>Carry-forward engine\<close>

subsubsection \<open>Dictionaries as association lists\<close>






subsubsection \<open>Groups\<close>




subsubsection \<open>The three steps of a day\<close>















subsubsection \<open>The most recent submission, day by day\<close>







subsubsection \<open>The rows of one question\<close>




subsubsection \<open>The whole table\<close>




subsubsection \<open>The claims on the engine\<close>








end
